theory Spec2Isabelle
  imports
    Main
    "HOL-Library.Char_ord"
    "HOL-Library.List_Lexorder"
    "HOL-Library.Word"
begin

section \<open>The environment of filetree.py\<close>

text \<open>
  Every exception the modelled code can raise is a value; a function that can raise
  returns \<open>error + 'a\<close> with \<open>Inl\<close> for the exception.
\<close>

datatype error =
    FileNotFoundError
  | NotADirectoryError
  | IsADirectoryError
  | PermissionError
  | IndexError
  | UnboundLocalError
  | PatternError
  | NotModelled

datatype warning = UserWarning string

type_synonym byte = "8 word"

text \<open>
  A file system object: a regular file with its bytes, or a directory with its named
  entries. The flag says whether the process may read (open, respectively list) it.
\<close>

datatype fsnode =
    File bool "byte list"
  | Dir bool "(string \<times> fsnode) list"

text \<open>What the operating system resolves a path string to.\<close>

type_synonym filesystem = "string \<Rightarrow> fsnode option"

section \<open>String helpers of Python\<close>

definition startswith :: "string \<Rightarrow> string \<Rightarrow> bool" where
  "startswith s pre = (take (length pre) s = pre)"

definition endswith :: "string \<Rightarrow> string \<Rightarrow> bool" where
  "endswith s suf = (length suf \<le> length s \<and> drop (length s - length suf) s = suf)"

text \<open>\<open>sep.join(xs)\<close>\<close>

fun join :: "string \<Rightarrow> string list \<Rightarrow> string" where
  "join sep [] = []"
| "join sep [x] = x"
| "join sep (x # y # ys) = x @ sep @ join sep (y # ys)"

text \<open>\<open>s.split(c)\<close> for a one-character separator; the result is never empty.\<close>

fun split :: "char \<Rightarrow> string \<Rightarrow> string list" where
  "split c [] = [[]]"
| "split c (x # xs) =
     (if x = c then [] # split c xs
      else (let r = split c xs in (x # hd r) # tl r))"

section \<open>Basetree\<close>

datatype tree_kind = Basetree | Filetree | Dirtree

record tree =
  kind :: tree_kind
  name :: string
  abspath :: string
  leadingpath :: string
  rootdir :: string
  elemlist :: "string list"
  applied_filters :: "string list"

text \<open>
  \<open>Basetree._parse_path_argument\<close>. Its first statement calls \<open>os.getcwd()\<close>, which
  raises when the working directory is gone; \<open>getcwd\<close> is the outcome of that call.
\<close>

definition parse_path_argument :: "(error + string) \<Rightarrow> string \<Rightarrow> error + string" where
  "parse_path_argument getcwd path0 =
     (case getcwd of
        Inl e \<Rightarrow> Inl e
      | Inr cwd \<Rightarrow>
          (let path = (if endswith path0 ''/'' then butlast path0 else path0) in
           if startswith path ''/'' then Inr path
           else if startswith path ''./'' then Inr (join ''/'' [cwd, drop 2 path])
           else Inr (join ''/'' [cwd, path])))"

text \<open>
  \<open>Basetree._seperate_path\<close>. The slice \<open>path_elements[1:-1]\<close> never raises;
  \<open>path_elements[-2]\<close> raises IndexError on a list of one element.
\<close>

definition seperate_path :: "string \<Rightarrow> error + (string \<times> string)" where
  "seperate_path path =
     (let path_elements = split CHR ''/'' path;
          leading = ''/'' @ join ''/'' (butlast (tl path_elements)) @ ''/''
      in if last path_elements = [] then
           (if length path_elements < 2 then Inl IndexError
            else Inr (leading, path_elements ! (length path_elements - 2)))
         else Inr (leading, last path_elements))"

text \<open>\<open>Basetree.__init__\<close>\<close>

definition Basetree_init ::
  "tree_kind \<Rightarrow> (error + string) \<Rightarrow> string \<Rightarrow> string \<Rightarrow> error + tree"
where
  "Basetree_init k getcwd path nm =
     (case parse_path_argument getcwd path of
        Inl e \<Rightarrow> Inl e
      | Inr ap \<Rightarrow>
          (case seperate_path ap of
             Inl e \<Rightarrow> Inl e
           | Inr (lp, rd) \<Rightarrow>
               Inr \<lparr>kind = k, name = nm, abspath = ap, leadingpath = lp, rootdir = rd,
                    elemlist = [], applied_filters = []\<rparr>))"

text \<open>The properties \<open>size\<close>, \<open>elements\<close>, \<open>path\<close> and \<open>files\<close>.\<close>

definition size_of :: "tree \<Rightarrow> nat" where
  "size_of t = length (elemlist t)"

definition elements :: "tree \<Rightarrow> string list" where
  "elements t = elemlist t"

definition path :: "tree \<Rightarrow> string" where
  "path t = abspath t"

definition files :: "tree \<Rightarrow> string list" where
  "files t = elemlist t"

section \<open>Comparators\<close>

text \<open>
  Each comparator returns a namedtuple class of its own, called \<open>result\<close>, with the
  attributes the function assigns. The attribute \<open>result\<close> of \<open>compare_size\<close> and of
  \<open>compare_set\<close> is the field \<open>size_equal\<close>, respectively \<open>set_equal\<close>, here.
\<close>

record size_result =
  size_equal :: bool
  na :: nat
  nb :: nat

record set_result =
  set_equal :: bool
  missing_a :: "string list"
  missing_b :: "string list"

record binary_result =
  result :: bool
  diff :: "string list option"

text \<open>\<open>compare_size\<close>\<close>

definition compare_size :: "tree \<Rightarrow> tree \<Rightarrow> size_result" where
  "compare_size tree_a tree_b =
     (let a = size_of tree_a; b = size_of tree_b
      in \<lparr>size_equal = (a = b), na = a, nb = b\<rparr>)"

text \<open>
  \<open>compare_set\<close>. Python does not specify the order in which a set is iterated;
  \<open>order\<close> is that order, a parameter of the model: \<open>list(s)\<close> is \<open>order s\<close>.
\<close>

definition compare_set :: "(string set \<Rightarrow> string list) \<Rightarrow> tree \<Rightarrow> tree \<Rightarrow> set_result" where
  "compare_set order tree_a tree_b =
     (let set_a = set (elements tree_a); set_b = set (elements tree_b)
      in if set_a = set_b then \<lparr>set_equal = True, missing_a = [], missing_b = []\<rparr>
         else \<lparr>set_equal = False, missing_a = order (set_b - set_a),
               missing_b = order (set_a - set_b)\<rparr>)"

text \<open>
  A digest of \<open>hashlib\<close>: the constructor's fresh state, \<open>update\<close> and
  \<open>hexdigest\<close>.
\<close>

record 'h hasher =
  new :: 'h
  update :: "'h \<Rightarrow> byte list \<Rightarrow> 'h"
  hexdigest :: "'h \<Rightarrow> string"

text \<open>
  The loop of \<open>_hash\<close>: read 1024 bytes, feed them to the hasher, stop after the empty
  chunk (which is fed as well).
\<close>

function hash_loop :: "'h hasher \<Rightarrow> 'h \<Rightarrow> byte list \<Rightarrow> 'h" where
  "hash_loop method h rest =
     (let chunk = take 1024 rest; h' = update method h chunk
      in if chunk = [] then h' else hash_loop method h' (drop 1024 rest))"
  by pat_completeness auto
termination
  by (relation "measure (\<lambda>(method, h, rest). length rest)") auto

text \<open>\<open>_hash\<close>: \<open>open(filepath, 'rb')\<close> raises when the path is no readable file.\<close>

definition hash :: "filesystem \<Rightarrow> 'h hasher \<Rightarrow> string \<Rightarrow> error + string" where
  "hash fs method filepath =
     (case fs filepath of
        None \<Rightarrow> Inl FileNotFoundError
      | Some (Dir r es) \<Rightarrow> Inl IsADirectoryError
      | Some (File r bs) \<Rightarrow>
          if r then Inr (hexdigest method (hash_loop method (new method) bs))
          else Inl PermissionError)"

text \<open>
  The loop of \<open>compare_binary\<close> over the candidate files, \<open>d\<close> being the list
  \<open>diff\<close> built so far; an exception of \<open>_hash\<close> ends it.
\<close>

fun diff_loop ::
  "filesystem \<Rightarrow> 'h hasher \<Rightarrow> tree \<Rightarrow> tree \<Rightarrow> string list \<Rightarrow> string list \<Rightarrow> error + string list"
where
  "diff_loop fs md5 tree_a tree_b [] d = Inr d"
| "diff_loop fs md5 tree_a tree_b (filename # rest) d =
     (case hash fs md5 (path tree_a @ ''/'' @ filename) of
        Inl e \<Rightarrow> Inl e
      | Inr ha \<Rightarrow>
          (case hash fs md5 (path tree_b @ ''/'' @ filename) of
             Inl e \<Rightarrow> Inl e
           | Inr hb \<Rightarrow>
               diff_loop fs md5 tree_a tree_b rest
                 (if ha \<noteq> hb then d @ [filename] else d)))"

text \<open>
  The candidate files of \<open>compare_binary\<close>. The elements are strings, so building the
  sets cannot raise TypeError and the \<open>except\<close> branch is never taken.
\<close>

definition comp_set :: "(string set \<Rightarrow> string list) \<Rightarrow> tree \<Rightarrow> tree \<Rightarrow> string set" where
  "comp_set order tree_a tree_b =
     (let set_result = compare_set order tree_a tree_b;
          allfiles = set (files tree_a) \<union> set (files tree_b);
          excluded = set (missing_a set_result) \<union> set (missing_b set_result)
      in allfiles - excluded)"

text \<open>
  \<open>compare_binary\<close>. \<open>md5\<close> is the digest the module imports, the default of
  \<open>_hash\<close>; \<open>hashmethod\<close> is the argument of \<open>compare_binary\<close>. The first component
  of the result holds the warnings issued.
\<close>

definition compare_binary ::
  "'h hasher \<Rightarrow> (string set \<Rightarrow> string list) \<Rightarrow> filesystem \<Rightarrow> tree \<Rightarrow> tree \<Rightarrow> 'g hasher
     \<Rightarrow> warning list \<times> (error + binary_result)"
where
  "compare_binary md5 order fs tree_a tree_b hashmethod =
     (if \<not> (kind tree_a = Filetree \<and> kind tree_b = Filetree) then
        ([UserWarning ''Binary Comparison for Dirtree's is meaningless''],
         Inr \<lparr>result = True, diff = None\<rparr>)
      else
        (case diff_loop fs md5 tree_a tree_b (order (comp_set order tree_a tree_b)) [] of
           Inl e \<Rightarrow> ([], Inl e)
         | Inr d \<Rightarrow> ([], Inr \<lparr>result = (length d = 0), diff = Some d\<rparr>)))"

text \<open>\<open>Basetree.compare\<close>: for an unknown method, \<open>res\<close> is unbound at \<open>return res\<close>.\<close>

datatype comparison =
    SizeResult size_result
  | SetResult set_result
  | BinaryResult binary_result

definition compare ::
  "'h hasher \<Rightarrow> (string set \<Rightarrow> string list) \<Rightarrow> filesystem \<Rightarrow> tree \<Rightarrow> tree \<Rightarrow> string
     \<Rightarrow> warning list \<times> (error + comparison)"
where
  "compare md5 order fs self tree method =
     (if method = ''size'' then ([], Inr (SizeResult (compare_size self tree)))
      else if method = ''set'' then ([], Inr (SetResult (compare_set order self tree)))
      else if method \<in> set [''binary'', ''bin''] then
        (case compare_binary md5 order fs self tree md5 of
           (ws, Inl e) \<Rightarrow> (ws, Inl e)
         | (ws, Inr r) \<Rightarrow> (ws, Inr (BinaryResult r)))
      else ([], Inl UnboundLocalError))"

section \<open>Regular expressions: a fragment of Python's re\<close>

text \<open>
  \<open>re.fullmatch\<close> is modelled for patterns built from ordinary characters, the dot
  and the star after one of these. A star with nothing to repeat, or after a star, is
  \<open>re.error\<close> (here \<open>PatternError\<close>). Any other special character is outside the
  fragment: there the model answers \<open>NotModelled\<close> and says nothing about Python.
\<close>

datatype atom = Lit char | AnyChar

datatype item = One atom | Many atom

definition other_specials :: "char list" where
  "other_specials =
     [CHR ''^'', CHR ''$'', CHR ''+'', CHR ''?'', CHR ''{'', CHR ''}'', CHR ''['', CHR '']'',
      CHR 0x5C, CHR ''|'', CHR ''('', CHR '')'']"

definition atom_of :: "char \<Rightarrow> atom" where
  "atom_of c = (if c = CHR ''.'' then AnyChar else Lit c)"

fun re_compile :: "string \<Rightarrow> error + item list" where
  "re_compile [] = Inr []"
| "re_compile [c] =
     (if c = CHR ''*'' then Inl PatternError
      else if c \<in> set other_specials then Inl NotModelled
      else Inr [One (atom_of c)])"
| "re_compile (c # d # cs) =
     (if c = CHR ''*'' then Inl PatternError
      else if c \<in> set other_specials then Inl NotModelled
      else if d = CHR ''*'' then
        (case re_compile cs of Inl e \<Rightarrow> Inl e | Inr items \<Rightarrow> Inr (Many (atom_of c) # items))
      else
        (case re_compile (d # cs) of Inl e \<Rightarrow> Inl e | Inr items \<Rightarrow> Inr (One (atom_of c) # items)))"

text \<open>Without the DOTALL flag the dot matches every character but the newline.\<close>

fun accepts :: "atom \<Rightarrow> char \<Rightarrow> bool" where
  "accepts (Lit c) x = (x = c)"
| "accepts AnyChar x = (x \<noteq> CHR 0x0A)"

text \<open>A backtracking matcher: does the whole string match the whole pattern?\<close>

function re_match :: "item list \<Rightarrow> string \<Rightarrow> bool" where
  "re_match [] s = (s = [])"
| "re_match (One a # items) [] = False"
| "re_match (One a # items) (x # s) = (accepts a x \<and> re_match items s)"
| "re_match (Many a # items) [] = re_match items []"
| "re_match (Many a # items) (x # s) =
     (re_match items (x # s) \<or> (accepts a x \<and> re_match (Many a # items) s))"
  by pat_completeness auto
termination
  by (relation "measure (\<lambda>(items, s). length items + length s)") auto

definition re_fullmatch :: "string \<Rightarrow> string \<Rightarrow> error + bool" where
  "re_fullmatch pattern s =
     (case re_compile pattern of Inl e \<Rightarrow> Inl e | Inr items \<Rightarrow> Inr (re_match items s))"

section \<open>Basetree.filter\<close>

text \<open>
  The loop of \<open>filter\<close>. \<open>fullmatch\<close> stands for \<open>re.fullmatch\<close>: it raises or tells
  whether there is a match. An exception ends the loop.
\<close>

fun filter_loop ::
  "(string \<Rightarrow> string \<Rightarrow> error + bool) \<Rightarrow> string \<Rightarrow> bool \<Rightarrow> string list \<Rightarrow> string list
     \<Rightarrow> error + string list"
where
  "filter_loop fullmatch expression invert [] filtered = Inr filtered"
| "filter_loop fullmatch expression invert (nm # rest) filtered =
     (case fullmatch expression nm of
        Inl e \<Rightarrow> Inl e
      | Inr m \<Rightarrow>
          filter_loop fullmatch expression invert rest
            (if invert then (if \<not> m then filtered @ [nm] else filtered)
             else (if m then filtered @ [nm] else filtered)))"

text \<open>
  \<open>Basetree.filter\<close>. The result is the receiver after the call, and either the
  exception raised or the value returned: \<open>None\<close> in place, the filtered deep copy
  otherwise.
\<close>

definition filter_tree ::
  "(string \<Rightarrow> string \<Rightarrow> error + bool) \<Rightarrow> tree \<Rightarrow> string \<Rightarrow> bool \<Rightarrow> bool \<Rightarrow> bool
     \<Rightarrow> tree \<times> (error + tree option)"
where
  "filter_tree fullmatch self expression0 inplace regex invert =
     (let expression = (if \<not> regex then ''.*'' @ expression0 @ ''.*'' else expression0) in
      case filter_loop fullmatch expression invert (elements self) [] of
        Inl e \<Rightarrow> (self, Inl e)
      | Inr filtered \<Rightarrow>
          (let logged = (if invert then ''!><'' @ expression else expression) in
           if inplace then
             (self\<lparr>elemlist := filtered, applied_filters := applied_filters self @ [logged]\<rparr>,
              Inr None)
           else
             (self,
              Inr (Some (self\<lparr>elemlist := filtered,
                               applied_filters := applied_filters self @ [logged]\<rparr>)))))"

section \<open>Building a tree from the file system\<close>

text \<open>\<open>os.path.join\<close> of two components.\<close>

definition os_path_join :: "string \<Rightarrow> string \<Rightarrow> string" where
  "os_path_join a b =
     (if startswith b ''/'' then b
      else if a = [] \<or> endswith a ''/'' then a @ b
      else a @ ''/'' @ b)"

definition is_dir :: "fsnode \<Rightarrow> bool" where
  "is_dir n = (case n of Dir r es \<Rightarrow> True | File r bs \<Rightarrow> False)"

text \<open>
  \<open>os.walk(top)\<close> as the code calls it: top-down, and with no \<open>onerror\<close> handler, so
  a directory that cannot be listed yields nothing and the walk goes on.
\<close>

fun walk_node :: "string \<Rightarrow> fsnode \<Rightarrow> (string \<times> string list \<times> string list) list"
  and walk_entries :: "string \<Rightarrow> (string \<times> fsnode) list \<Rightarrow> (string \<times> string list \<times> string list) list"
where
  "walk_node topdir (File r bs) = []"
| "walk_node topdir (Dir r es) =
     (if r then
        (topdir, map fst (filter (\<lambda>e. is_dir (snd e)) es),
              map fst (filter (\<lambda>e. \<not> is_dir (snd e)) es))
        # walk_entries topdir es
      else [])"
| "walk_entries topdir [] = []"
| "walk_entries topdir (e # es) =
     (if is_dir (snd e) then walk_node (os_path_join topdir (fst e)) (snd e) else [])
     @ walk_entries topdir es"

definition os_walk :: "filesystem \<Rightarrow> string \<Rightarrow> (string \<times> string list \<times> string list) list" where
  "os_walk fs topdir = (case fs topdir of None \<Rightarrow> [] | Some n \<Rightarrow> walk_node topdir n)"

definition os_listdir :: "filesystem \<Rightarrow> string \<Rightarrow> error + string list" where
  "os_listdir fs p =
     (case fs p of
        None \<Rightarrow> Inl FileNotFoundError
      | Some (File r bs) \<Rightarrow> Inl NotADirectoryError
      | Some (Dir r es) \<Rightarrow> if r then Inr (map fst es) else Inl PermissionError)"

text \<open>\<open>Basetree._create_abslist\<close>\<close>

definition create_abslist :: "(string \<times> string list \<times> string list) list \<Rightarrow> bool \<Rightarrow> string list" where
  "create_abslist walk dirsonly =
     concat (map (\<lambda>(root, dirnames, filenames).
                    map (\<lambda>entry. if root \<noteq> [] then root @ ''/'' @ entry else entry)
                        (if dirsonly then dirnames else filenames))
                 walk)"

text \<open>\<open>Basetree._create_rellist\<close>: the slice \<open>p[len(path) + 1:]\<close>.\<close>

definition create_rellist :: "string list \<Rightarrow> string \<Rightarrow> string list" where
  "create_rellist abslist pth = map (drop (length pth + 1)) abslist"

text \<open>\<open>Filetree.__init__\<close>; the last statement lists the root and may raise.\<close>

definition Filetree_init ::
  "(error + string) \<Rightarrow> filesystem \<Rightarrow> string \<Rightarrow> string \<Rightarrow> error + tree"
where
  "Filetree_init getcwd fs pth nm =
     (case Basetree_init Filetree getcwd pth nm of
        Inl e \<Rightarrow> Inl e
      | Inr self \<Rightarrow>
          (let abslist = create_abslist (os_walk fs (abspath self)) False;
               self' = self\<lparr>elemlist := sort (create_rellist abslist (abspath self))\<rparr>
           in case os_listdir fs (abspath self') of
                Inl e \<Rightarrow> Inl e
              | Inr listing \<Rightarrow> Inr self'))"

text \<open>\<open>Dirtree.__init__\<close>\<close>

definition Dirtree_init ::
  "(error + string) \<Rightarrow> filesystem \<Rightarrow> string \<Rightarrow> string \<Rightarrow> error + tree"
where
  "Dirtree_init getcwd fs pth nm =
     (case Basetree_init Dirtree getcwd pth nm of
        Inl e \<Rightarrow> Inl e
      | Inr self \<Rightarrow>
          (let abslist = create_abslist (os_walk fs (abspath self)) True
           in Inr (self\<lparr>elemlist := sort (create_rellist abslist (abspath self))\<rparr>)))"

section \<open>Notions used in the statements\<close>

text \<open>The string \<open>s\<close> contains \<open>e\<close> as a contiguous substring (Python's \<open>e in s\<close>).\<close>

fun contains :: "string \<Rightarrow> string \<Rightarrow> bool" where
  "contains [] e = (e = [])"
| "contains (x # s) e = (startswith (x # s) e \<or> contains s e)"

text \<open>
  What Python guarantees about the iteration of a (finite) set: every member is visited
  once.
\<close>

definition enumerates :: "(string set \<Rightarrow> string list) \<Rightarrow> bool" where
  "enumerates order = (\<forall>S. finite S \<longrightarrow> set (order S) = S \<and> distinct (order S))"

text \<open>The file \<open>filename\<close> under the root of \<open>t\<close> can be opened and hashed.\<close>

definition hashable :: "filesystem \<Rightarrow> 'h hasher \<Rightarrow> tree \<Rightarrow> string \<Rightarrow> bool" where
  "hashable fs md5 t filename = (\<exists>h. hash fs md5 (path t @ ''/'' @ filename) = Inr h)"

text \<open>The test of \<open>compare_binary\<close>'s loop: the two digests of \<open>filename\<close> differ.\<close>

definition differs :: "filesystem \<Rightarrow> 'h hasher \<Rightarrow> tree \<Rightarrow> tree \<Rightarrow> string \<Rightarrow> bool" where
  "differs fs md5 tree_a tree_b filename =
     (hash fs md5 (path tree_a @ ''/'' @ filename) \<noteq> hash fs md5 (path tree_b @ ''/'' @ filename))"

text \<open>
  The characters that stand for themselves in a pattern, and the line feed, which the
  dot does not match.
\<close>

definition ordinary :: "char \<Rightarrow> bool" where
  "ordinary c = (c \<noteq> CHR ''.'' \<and> c \<noteq> CHR ''*'' \<and> c \<notin> set other_specials)"

definition newline :: char where
  "newline = CHR 0x0A"

text \<open>\<open>e\<close> occurs in \<open>s\<close> with no line feed before or after the occurrence.\<close>

definition occurs_on_line :: "string \<Rightarrow> string \<Rightarrow> bool" where
  "occurs_on_line e s = (\<exists>u v. s = u @ e @ v \<and> newline \<notin> set u \<and> newline \<notin> set v)"

text \<open>
  Directories as a file system has them: the names in a directory are distinct,
  non-empty and hold no separator.
\<close>

fun wf_node :: "fsnode \<Rightarrow> bool"
  and wf_entries :: "(string \<times> fsnode) list \<Rightarrow> bool"
where
  "wf_node (File r bs) = True"
| "wf_node (Dir r es) = (distinct (map fst es) \<and> wf_entries es)"
| "wf_entries [] = True"
| "wf_entries (e # es) =
     (fst e \<noteq> [] \<and> CHR ''/'' \<notin> set (fst e) \<and> wf_node (snd e) \<and> wf_entries es)"

text \<open>
  The paths, relative to a directory, of the files (or, with \<open>d\<close>, of the
  directories) that can be reached from it through directories that can be listed.
\<close>

fun rel_node :: "bool \<Rightarrow> fsnode \<Rightarrow> string list"
  and rel_entries :: "bool \<Rightarrow> (string \<times> fsnode) list \<Rightarrow> string list"
where
  "rel_node d (File r bs) = []"
| "rel_node d (Dir r es) =
     (if r then map fst (filter (\<lambda>e. is_dir (snd e) = d) es) @ rel_entries d es else [])"
| "rel_entries d [] = []"
| "rel_entries d (e # es) =
     (if is_dir (snd e) then map (\<lambda>r. fst e @ ''/'' @ r) (rel_node d (snd e)) else [])
     @ rel_entries d es"



section \<open>Example inputs\<close>

text \<open>
  Two digests for the examples: one that keeps all bytes (it never collides), one that
  only counts them (it collides on contents of equal length).
\<close>

definition plain_digest :: "byte list hasher" where
  "plain_digest =
     \<lparr>new = [], update = (\<lambda>h chunk. h @ chunk), hexdigest = map (\<lambda>b. char_of (unat b))\<rparr>"

definition count_digest :: "nat hasher" where
  "count_digest =
     \<lparr>new = 0, update = (\<lambda>h chunk. h + length chunk), hexdigest = (\<lambda>h. replicate h CHR ''0'')\<rparr>"

text \<open>
  Two roots with the same files, \<open>a/x.txt\<close> holding "1" in both and \<open>a/y.txt\<close>
  holding "2" under \<open>/A\<close> and "9" under \<open>/B\<close>.
\<close>

definition two_roots :: filesystem where
  "two_roots =
     [''/A'' \<mapsto> Dir True [(''a'', Dir True [(''x.txt'', File True [0x31]),
                                            (''y.txt'', File True [0x32])])],
      ''/A/a/x.txt'' \<mapsto> File True [0x31],
      ''/A/a/y.txt'' \<mapsto> File True [0x32],
      ''/B'' \<mapsto> Dir True [(''a'', Dir True [(''x.txt'', File True [0x31]),
                                            (''y.txt'', File True [0x39])])],
      ''/B/a/x.txt'' \<mapsto> File True [0x31],
      ''/B/a/y.txt'' \<mapsto> File True [0x39]]"

definition tree_A :: tree where
  "tree_A = \<lparr>kind = Filetree, name = [], abspath = ''/A'', leadingpath = ''//'', rootdir = ''A'',
             elemlist = [''a/x.txt'', ''a/y.txt''], applied_filters = []\<rparr>"

definition tree_B :: tree where
  "tree_B = \<lparr>kind = Filetree, name = [], abspath = ''/B'', leadingpath = ''//'', rootdir = ''B'',
             elemlist = [''a/x.txt'', ''a/y.txt''], applied_filters = []\<rparr>"

definition dirs_A :: tree where
  "dirs_A = \<lparr>kind = Dirtree, name = [], abspath = ''/A'', leadingpath = ''//'', rootdir = ''A'',
             elemlist = [''a''], applied_filters = []\<rparr>"

definition dirs_B :: tree where
  "dirs_B = \<lparr>kind = Dirtree, name = [], abspath = ''/B'', leadingpath = ''//'', rootdir = ''B'',
             elemlist = [''a''], applied_filters = []\<rparr>"

text \<open>
  A directory with three files and an empty directory, and the Filetrees built from
  them.
\<close>

definition var_dirs :: filesystem where
  "var_dirs =
     [''/var/log'' \<mapsto> Dir True [(''c.log'', File True []), (''a.log'', File True []),
                                 (''b.txt'', File True [])],
      ''/var/empty'' \<mapsto> Dir True []]"

definition logs :: tree where
  "logs = \<lparr>kind = Filetree, name = [], abspath = ''/var/log'', leadingpath = ''/var/'',
           rootdir = ''log'', elemlist = [''a.log'', ''b.txt'', ''c.log''],
           applied_filters = []\<rparr>"

definition no_files :: tree where
  "no_files = \<lparr>kind = Filetree, name = [], abspath = ''/var/empty'', leadingpath = ''/var/'',
               rootdir = ''empty'', elemlist = [], applied_filters = []\<rparr>"


text \<open>
  The working directory \<open>/w\<close> with two subdirectories, each holding a file \<open>f\<close>;
  the system resolves \<open>/w/\<close> to it.
\<close>

definition twins :: filesystem where
  "twins =
     [''/w/'' \<mapsto> Dir True [(''sub'', Dir True [(''f'', File True [])]),
                            (''tub'', Dir True [(''f'', File True [])])]]"

definition twins_tree :: tree where
  "twins_tree = \<lparr>kind = Filetree, name = [], abspath = ''/w/'', leadingpath = ''/w/'',
                 rootdir = ''w'', elemlist = [''ub/f'', ''ub/f''], applied_filters = []\<rparr>"

section \<open>The examples are trees the constructors build\<close>

lemma tree_A_built: "Filetree_init (Inr ''/'') two_roots ''/A'' [] = Inr tree_A"
  by code_simp

lemma tree_B_built: "Filetree_init (Inr ''/home'') two_roots ''/B/'' [] = Inr tree_B"
  by code_simp

lemma dirs_A_built: "Dirtree_init (Inr ''/'') two_roots ''/A'' [] = Inr dirs_A"
  by code_simp

lemma dirs_B_built: "Dirtree_init (Inr ''/'') two_roots ''/B'' [] = Inr dirs_B"
  by code_simp

lemma two_roots_hashes:
  "hash two_roots plain_digest ''/A/a/x.txt'' = Inr ''1''"
  "hash two_roots plain_digest ''/A/a/y.txt'' = Inr ''2''"
  "hash two_roots plain_digest ''/B/a/x.txt'' = Inr ''1''"
  "hash two_roots plain_digest ''/B/a/y.txt'' = Inr ''9''"
  by code_simp+

lemma logs_built: "Filetree_init (Inr ''/var'') var_dirs ''log'' [] = Inr logs"
  by code_simp

lemma no_files_built: "Filetree_init (Inr ''/var'') var_dirs ''./empty/'' [] = Inr no_files"
  by code_simp

lemma enumerates_sorted_list_of_set: "enumerates sorted_list_of_set"
  by (simp add: enumerates_def)

section \<open>compare_binary\<close>

lemma comp_set_inter:
  assumes "enumerates order"
  shows "comp_set order tree_a tree_b = set (elements tree_a) \<inter> set (elements tree_b)"
proof -
  have a: "set (order (set (elements tree_b) - set (elements tree_a)))
             = set (elements tree_b) - set (elements tree_a)"
    using assms by (simp add: enumerates_def)
  have b: "set (order (set (elements tree_a) - set (elements tree_b)))
             = set (elements tree_a) - set (elements tree_b)"
    using assms by (simp add: enumerates_def)
  show ?thesis
    unfolding comp_set_def compare_set_def Let_def files_def elements_def
    using a b unfolding elements_def by auto
qed

lemma diff_loop_filter:
  "\<forall>g \<in> set xs. hashable fs md5 tree_a g \<and> hashable fs md5 tree_b g \<Longrightarrow>
   diff_loop fs md5 tree_a tree_b xs d = Inr (d @ filter (differs fs md5 tree_a tree_b) xs)"
proof (induction xs arbitrary: d)
  case Nil
  then show ?case by simp
next
  case (Cons g xs)
  from Cons.prems obtain ha hb where
    h: "hash fs md5 (path tree_a @ ''/'' @ g) = Inr ha"
       "hash fs md5 (path tree_b @ ''/'' @ g) = Inr hb"
    by (auto simp: hashable_def)
  from Cons.prems have rest: "\<forall>g \<in> set xs. hashable fs md5 tree_a g \<and> hashable fs md5 tree_b g"
    by simp
  show ?case
    using h Cons.IH [OF rest] by (simp add: differs_def)
qed

lemma filter_single:
  "distinct xs \<Longrightarrow> f \<in> set xs \<Longrightarrow> \<forall>g \<in> set xs. P g \<longleftrightarrow> g = f \<Longrightarrow> filter P xs = [f]"
proof (induction xs)
  case Nil
  then show ?case by simp
next
  case (Cons x xs)
  show ?case
  proof (cases "x = f")
    case True
    with Cons.prems have "\<forall>g \<in> set xs. \<not> P g" by auto
    then have "filter P xs = []" by (simp add: filter_empty_conv)
    with True Cons.prems show ?thesis by simp
  next
    case False
    with Cons show ?thesis by auto
  qed
qed

text \<open>
  Without an exception of \<open>_hash\<close>, \<open>compare_binary\<close> on two Filetrees reports the
  common files whose digests differ, in the order of the set iteration.
\<close>

lemma compare_binary_filetrees:
  assumes "enumerates order" and "kind tree_a = Filetree" and "kind tree_b = Filetree"
    and "\<forall>g \<in> set (elements tree_a) \<inter> set (elements tree_b).
           hashable fs md5 tree_a g \<and> hashable fs md5 tree_b g"
  shows "compare_binary md5 order fs tree_a tree_b hashmethod =
           (let d = filter (differs fs md5 tree_a tree_b)
                      (order (set (elements tree_a) \<inter> set (elements tree_b)))
            in ([], Inr \<lparr>result = (d = []), diff = Some d\<rparr>))"
proof -
  let ?S = "set (elements tree_a) \<inter> set (elements tree_b)"
  have cs: "comp_set order tree_a tree_b = ?S"
    by (rule comp_set_inter [OF assms(1)])
  have "set (order ?S) = ?S"
    using assms(1) by (simp add: enumerates_def)
  with assms(4) have "\<forall>g \<in> set (order ?S). hashable fs md5 tree_a g \<and> hashable fs md5 tree_b g"
    by simp
  then have "diff_loop fs md5 tree_a tree_b (order ?S) []
               = Inr ([] @ filter (differs fs md5 tree_a tree_b) (order ?S))"
    by (rule diff_loop_filter)
  then show ?thesis
    using assms(2,3) cs by (simp add: compare_binary_def Let_def)
qed

text \<open>
  C1. On two Filetrees, the candidates of \<open>compare_binary\<close> are exactly the relative
  paths that are elements of both trees. When the two trees have the same set of
  elements, all their files can be hashed, and the digests under the two roots differ
  for exactly one file \<open>f\<close>, the result is \<open>result = False\<close> with \<open>diff = [f]\<close>.
\<close>

theorem compare_binary_intersection:
  assumes "enumerates order" and "kind tree_a = Filetree" and "kind tree_b = Filetree"
  shows "comp_set order tree_a tree_b = set (elements tree_a) \<inter> set (elements tree_b)
    \<and> (set (elements tree_a) = set (elements tree_b) \<and> f \<in> set (elements tree_a)
         \<and> (\<forall>g \<in> set (elements tree_a).
               hashable fs md5 tree_a g \<and> hashable fs md5 tree_b g
               \<and> (differs fs md5 tree_a tree_b g \<longleftrightarrow> g = f))
       \<longrightarrow> compare_binary md5 order fs tree_a tree_b hashmethod =
             ([], Inr \<lparr>result = False, diff = Some [f]\<rparr>))"
proof (intro conjI impI)
  show "comp_set order tree_a tree_b = set (elements tree_a) \<inter> set (elements tree_b)"
    by (rule comp_set_inter [OF assms(1)])
  assume h: "set (elements tree_a) = set (elements tree_b) \<and> f \<in> set (elements tree_a)
         \<and> (\<forall>g \<in> set (elements tree_a).
               hashable fs md5 tree_a g \<and> hashable fs md5 tree_b g
               \<and> (differs fs md5 tree_a tree_b g \<longleftrightarrow> g = f))"
  let ?S = "set (elements tree_a) \<inter> set (elements tree_b)"
  have S: "?S = set (elements tree_a)"
    using h by auto
  have en: "set (order ?S) = set (elements tree_a)" "distinct (order ?S)"
    using assms(1) S by (simp_all add: enumerates_def)
  have one: "filter (differs fs md5 tree_a tree_b) (order ?S) = [f]"
    by (rule filter_single) (use h en in auto)
  have "\<forall>g \<in> ?S. hashable fs md5 tree_a g \<and> hashable fs md5 tree_b g"
    using h by auto
  from compare_binary_filetrees [OF assms this, of hashmethod] one
  show "compare_binary md5 order fs tree_a tree_b hashmethod =
             ([], Inr \<lparr>result = False, diff = Some [f]\<rparr>)"
    by (simp add: Let_def)
qed

theorem compare_binary_intersection_witness:
  "comp_set sorted_list_of_set tree_A tree_B = {''a/x.txt'', ''a/y.txt''}
   \<and> compare_binary plain_digest sorted_list_of_set two_roots tree_A tree_B count_digest =
       ([], Inr \<lparr>result = False, diff = Some [''a/y.txt'']\<rparr>)"
  using compare_binary_intersection [of sorted_list_of_set tree_A tree_B "''a/y.txt''"
          two_roots plain_digest count_digest]
        enumerates_sorted_list_of_set two_roots_hashes
  by (simp add: tree_A_def tree_B_def elements_def path_def hashable_def differs_def)

text \<open>
  C2. \<open>compare_binary\<close> never hands its \<open>hashmethod\<close> argument to \<open>_hash\<close>: the
  files are hashed with the default of \<open>_hash\<close>, and the result is the same for every
  \<open>hashmethod\<close>.
\<close>

theorem compare_binary_ignores_hashmethod:
  "compare_binary md5 order fs tree_a tree_b hashmethod =
   compare_binary md5 order fs tree_a tree_b hashmethod'"
  by (simp add: compare_binary_def)

text \<open>
  An instance: when the default digest collides on the two contents of \<open>a/y.txt\<close>, the
  trees are reported equal although the digest passed as \<open>hashmethod\<close> tells the
  contents apart.
\<close>

lemma compare_binary_collision:
  "compare_binary count_digest sorted_list_of_set two_roots tree_A tree_B plain_digest =
     ([], Inr \<lparr>result = True, diff = Some []\<rparr>)
   \<and> hash two_roots plain_digest ''/A/a/y.txt'' \<noteq> hash two_roots plain_digest ''/B/a/y.txt''"
  by code_simp

text \<open>
  C7. When at least one of the two trees is not a Filetree, \<open>compare_binary\<close> raises
  nothing: it issues one UserWarning and returns \<open>result = True\<close>, \<open>diff = None\<close>.
\<close>

theorem compare_binary_not_filetrees:
  "\<not> (kind tree_a = Filetree \<and> kind tree_b = Filetree) \<Longrightarrow>
     compare_binary md5 order fs tree_a tree_b hashmethod =
       ([UserWarning ''Binary Comparison for Dirtree's is meaningless''],
        Inr \<lparr>result = True, diff = None\<rparr>)"
  by (simp add: compare_binary_def)

theorem compare_binary_not_filetrees_witness:
  "compare_binary plain_digest sorted_list_of_set two_roots dirs_A dirs_B plain_digest =
       ([UserWarning ''Binary Comparison for Dirtree's is meaningless''],
        Inr \<lparr>result = True, diff = None\<rparr>)"
  using compare_binary_not_filetrees [of dirs_A dirs_B plain_digest sorted_list_of_set
          two_roots plain_digest]
  by (simp add: dirs_A_def)

section \<open>Basetree.compare\<close>

text \<open>
  C10. For every method string other than "size", "set", "binary" and "bin",
  \<open>compare\<close> raises (UnboundLocalError, as \<open>res\<close> was never assigned) and returns no
  result; so it returns normally only for those four strings.
\<close>

theorem compare_unknown_method_raises:
  "method \<notin> {''size'', ''set'', ''binary'', ''bin''} \<Longrightarrow>
     compare md5 order fs self tree method = ([], Inl UnboundLocalError)
     \<and> (\<forall>r. snd (compare md5 order fs self tree method) \<noteq> Inr r)"
  by (simp add: compare_def)

theorem compare_unknown_method_raises_witness:
  "compare plain_digest sorted_list_of_set two_roots tree_A tree_B ''hash''
     = ([], Inl UnboundLocalError)"
  using compare_unknown_method_raises [of "''hash''" plain_digest sorted_list_of_set two_roots
          tree_A tree_B]
  by simp

section \<open>The root path\<close>

text \<open>
  C8. For the path "/" the computed root path is the working directory followed by
  the separator: it ends with "/".
\<close>

theorem parse_path_argument_root:
  "parse_path_argument (Inr ''/home/u'') ''/'' = Inr ''/home/u/''
   \<and> endswith ''/home/u/'' ''/''"
  by (simp add: parse_path_argument_def endswith_def startswith_def)

text \<open>
  Where the claim holds: but for the empty path, "/" and the paths that end with two
  separators, the root path does not end with the separator.
\<close>

lemma endswith_sep: "endswith a ''/'' \<longleftrightarrow> a \<noteq> [] \<and> last a = CHR ''/''"
proof (cases a rule: rev_cases)
  case Nil
  then show ?thesis by (simp add: endswith_def)
next
  case (snoc ys y)
  then show ?thesis by (auto simp: endswith_def)
qed

lemma startswith_sep: "startswith n ''/'' \<longleftrightarrow> n \<noteq> [] \<and> hd n = CHR ''/''"
  by (cases n) (auto simp: startswith_def)

lemma endswith_two_seps:
  "endswith p ''//'' \<longleftrightarrow> 2 \<le> length p \<and> last p = CHR ''/'' \<and> last (butlast p) = CHR ''/''"
proof (cases p rule: rev_cases)
  case Nil
  then show ?thesis by (simp add: endswith_def)
next
  case (snoc q y)
  show ?thesis
  proof (cases q rule: rev_cases)
    case Nil
    with snoc show ?thesis by (simp add: endswith_def)
  next
    case (snoc q' x)
    with \<open>p = q @ [y]\<close> show ?thesis by (auto simp: endswith_def butlast_append)
  qed
qed

lemma parse_path_argument_no_trailing_sep:
  assumes "p \<noteq> []" and "p \<noteq> ''/''" and "\<not> endswith p ''//''"
    and "parse_path_argument getcwd p = Inr ap"
  shows "\<not> endswith ap ''/''"
proof -
  from assms(4) obtain cwd where cwd: "getcwd = Inr cwd"
    by (cases getcwd) (simp_all add: parse_path_argument_def)
  define q where "q = (if endswith p ''/'' then butlast p else p)"
  have q: "q \<noteq> [] \<and> last q \<noteq> CHR ''/''"
  proof (cases "endswith p ''/''")
    case True
    then have l: "p \<noteq> []" "last p = CHR ''/''" by (simp_all add: endswith_sep)
    with assms(2) have b: "butlast p \<noteq> []"
      by (cases p rule: rev_cases) auto
    then have "2 \<le> length p" by (cases p rule: rev_cases) (auto simp: Suc_le_eq)
    with assms(3) l have "last (butlast p) \<noteq> CHR ''/''" by (simp add: endswith_two_seps)
    with b True show ?thesis by (simp add: q_def)
  next
    case False
    with assms(1) show ?thesis by (simp add: q_def endswith_sep)
  qed
  have r: "ap = (if startswith q ''/'' then q
                 else if startswith q ''./'' then cwd @ ''/'' @ drop 2 q
                 else cwd @ ''/'' @ q)"
    using assms(4) cwd by (simp add: parse_path_argument_def q_def Let_def split: if_splits)
  have d: "drop 2 q \<noteq> [] \<and> last (drop 2 q) = last q" if "startswith q ''./''"
  proof -
    from that obtain rest where rest: "q = CHR ''.'' # CHR ''/'' # rest"
      by (cases q; cases "tl q") (auto simp: startswith_def)
    with q have "rest \<noteq> []" by auto
    with rest show ?thesis by simp
  qed
  show ?thesis
    unfolding r endswith_sep using q d by auto
qed

section \<open>Properties of filter\<close>

lemma contains_iff: "contains s e \<longleftrightarrow> (\<exists>u v. s = u @ e @ v)"
proof (induction s)
  case Nil
  then show ?case by auto
next
  case (Cons x s)
  have "startswith (x # s) e \<longleftrightarrow> (\<exists>v. x # s = e @ v)"
    unfolding startswith_def
    by (metis append_eq_conv_conj)
  moreover have "(\<exists>u v. x # s = u @ e @ v) \<longleftrightarrow> (\<exists>v. x # s = e @ v) \<or> (\<exists>u v. s = u @ e @ v)"
  proof
    assume "\<exists>u v. x # s = u @ e @ v"
    then obtain u v where uv: "x # s = u @ e @ v" by blast
    show "(\<exists>v. x # s = e @ v) \<or> (\<exists>u v. s = u @ e @ v)"
    proof (cases u)
      case Nil
      with uv show ?thesis by auto
    next
      case (Cons y u')
      with uv have "s = u' @ e @ v" by simp
      then show ?thesis by blast
    qed
  next
    assume "(\<exists>v. x # s = e @ v) \<or> (\<exists>u v. s = u @ e @ v)"
    then show "\<exists>u v. x # s = u @ e @ v"
    proof
      assume "\<exists>v. x # s = e @ v"
      then obtain v where "x # s = [] @ e @ v" by auto
      then show ?thesis by blast
    next
      assume "\<exists>u v. s = u @ e @ v"
      then obtain u v where "x # s = (x # u) @ e @ v" by auto
      then show ?thesis by blast
    qed
  qed
  ultimately show ?case using Cons.IH by simp
qed

text \<open>When \<open>re.fullmatch\<close> does not raise, the loop keeps the matching elements, or
  the others when inverted, in their order.\<close>

lemma filter_loop_filter:
  "\<forall>n \<in> set xs. \<exists>m. fullmatch p n = Inr m \<Longrightarrow>
   filter_loop fullmatch p iv xs acc =
     Inr (acc @ filter (\<lambda>n. (fullmatch p n = Inr True) \<noteq> iv) xs)"
proof (induction xs arbitrary: acc)
  case Nil
  then show ?case by simp
next
  case (Cons n xs)
  from Cons.prems obtain m where m: "fullmatch p n = Inr m" by auto
  from Cons.prems have rest: "\<forall>n \<in> set xs. \<exists>m. fullmatch p n = Inr m" by simp
  show ?case
    using m Cons.IH [OF rest] by (cases m; cases iv) simp_all
qed

text \<open>
  C4. Without \<open>regex\<close> the expression is wrapped in \<open>.*\<close> but not escaped, so its
  special characters keep their meaning: the expression \<open>b.t.t\<close> selects \<open>b.txt\<close>,
  which does not contain it.
\<close>

theorem filter_not_literal:
  "filter_tree re_fullmatch logs ''b.t.t'' False False False =
     (logs, Inr (Some (logs\<lparr>elemlist := [''b.txt''], applied_filters := [''.*b.t.t.*'']\<rparr>)))
   \<and> \<not> contains ''b.txt'' ''b.t.t''"
  by code_simp

text \<open>
  Where the claim holds: an expression of ordinary characters selects the elements in
  which it occurs with no line feed before or after it; among elements without a
  line feed, those that contain it.
\<close>

lemma re_compile_literal:
  "\<forall>c \<in> set e. ordinary c \<Longrightarrow>
   re_compile (e @ ''.*'') = Inr (map (\<lambda>c. One (Lit c)) e @ [Many AnyChar])"
proof (induction e)
  case Nil
  then show ?case by (simp add: atom_of_def other_specials_def)
next
  case (Cons c e)
  then have c: "ordinary c" and IH: "re_compile (e @ ''.*'') = Inr (map (\<lambda>c. One (Lit c)) e @ [Many AnyChar])"
    by simp_all
  show ?case
  proof (cases e)
    case Nil
    with c show ?thesis by (simp add: ordinary_def atom_of_def other_specials_def)
  next
    case (Cons d e')
    with Cons.prems have "ordinary d" by simp
    with c IH Cons show ?thesis by (simp add: ordinary_def atom_of_def)
  qed
qed

lemma re_compile_wrapped:
  assumes "\<forall>c \<in> set e. ordinary c"
  shows "re_compile (''.*'' @ e @ ''.*'') =
           Inr (Many AnyChar # map (\<lambda>c. One (Lit c)) e @ [Many AnyChar])"
  using re_compile_literal [OF assms] by (simp add: atom_of_def other_specials_def)

lemma re_match_literal:
  "re_match (map (\<lambda>c. One (Lit c)) e @ items) s \<longleftrightarrow> (\<exists>v. s = e @ v \<and> re_match items v)"
proof (induction e arbitrary: s)
  case Nil
  then show ?case by simp
next
  case (Cons c e)
  then show ?case by (cases s) auto
qed

lemma re_match_any_star: "re_match [Many AnyChar] s \<longleftrightarrow> newline \<notin> set s"
  by (induction s) (auto simp: newline_def)

lemma re_match_star:
  "re_match (Many AnyChar # items) s \<longleftrightarrow>
     (\<exists>u v. s = u @ v \<and> newline \<notin> set u \<and> re_match items v)"
proof (induction s)
  case Nil
  then show ?case by simp
next
  case (Cons x s)
  have "(\<exists>u v. x # s = u @ v \<and> newline \<notin> set u \<and> re_match items v)
        \<longleftrightarrow> re_match items (x # s)
             \<or> (x \<noteq> newline \<and> (\<exists>u v. s = u @ v \<and> newline \<notin> set u \<and> re_match items v))"
    (is "?L \<longleftrightarrow> ?R")
  proof
    assume ?L
    then obtain u v where uv: "x # s = u @ v" "newline \<notin> set u" "re_match items v" by blast
    show ?R
    proof (cases u)
      case Nil
      with uv show ?thesis by simp
    next
      case (Cons y u')
      with uv have "x \<noteq> newline" "s = u' @ v" "newline \<notin> set u'" by auto
      with uv(3) show ?thesis by blast
    qed
  next
    assume ?R
    then show ?L
    proof
      assume "re_match items (x # s)"
      then have "x # s = [] @ (x # s) \<and> newline \<notin> set [] \<and> re_match items (x # s)" by simp
      then show ?L by blast
    next
      assume "x \<noteq> newline \<and> (\<exists>u v. s = u @ v \<and> newline \<notin> set u \<and> re_match items v)"
      then obtain u v where "x # s = (x # u) @ v \<and> newline \<notin> set (x # u) \<and> re_match items v"
        by auto
      then show ?L by blast
    qed
  qed
  with Cons.IH show ?case by (simp add: newline_def)
qed

lemma re_fullmatch_wrapped:
  assumes "\<forall>c \<in> set e. ordinary c"
  shows "re_fullmatch (''.*'' @ e @ ''.*'') s = Inr (occurs_on_line e s)"
proof -
  have "re_match (Many AnyChar # map (\<lambda>c. One (Lit c)) e @ [Many AnyChar]) s
          \<longleftrightarrow> occurs_on_line e s"
    unfolding re_match_star re_match_literal re_match_any_star occurs_on_line_def
    by auto
  then show ?thesis
    unfolding re_fullmatch_def re_compile_wrapped [OF assms] by simp
qed

lemma filter_literal:
  assumes "\<forall>c \<in> set e. ordinary c"
  shows "filter_tree re_fullmatch t e False False False =
     (t, Inr (Some (t\<lparr>elemlist := filter (occurs_on_line e) (elements t),
                      applied_filters := applied_filters t @ [''.*'' @ e @ ''.*'']\<rparr>)))"
proof -
  define P where "P = ''.*'' @ e @ ''.*''"
  have fm: "re_fullmatch P n = Inr (occurs_on_line e n)" for n
    unfolding P_def by (rule re_fullmatch_wrapped [OF assms])
  have "filter_loop re_fullmatch P False (elements t) [] =
          Inr ([] @ filter (\<lambda>n. (re_fullmatch P n = Inr True) \<noteq> False) (elements t))"
    by (rule filter_loop_filter) (simp add: fm)
  then have loop: "filter_loop re_fullmatch P False (elements t) [] =
                     Inr (filter (occurs_on_line e) (elements t))"
    by (simp add: fm)
  have "filter_tree re_fullmatch t e False False False =
          (case filter_loop re_fullmatch P False (elements t) [] of
             Inl err \<Rightarrow> (t, Inl err)
           | Inr filtered \<Rightarrow>
               (t, Inr (Some (t\<lparr>elemlist := filtered,
                                applied_filters := applied_filters t @ [P]\<rparr>))))"
    by (simp add: filter_tree_def P_def Let_def split: sum.splits)
  with loop show ?thesis
    by (simp add: P_def)
qed

lemma occurs_on_line_contains:
  "newline \<notin> set s \<Longrightarrow> occurs_on_line e s \<longleftrightarrow> contains s e"
  unfolding occurs_on_line_def contains_iff by fastforce

text \<open>
  C5. When \<open>re.fullmatch\<close> accepts the (wrapped) expression on the elements of the
  tree, the copies returned by \<open>filter\<close> without and with \<open>invert\<close> hold disjoint
  sets of elements whose union is the set of elements of the tree.
\<close>

theorem filter_invert_partition:
  assumes "\<forall>n \<in> set (elements t).
             \<exists>m. fullmatch (if regex then E else ''.*'' @ E @ ''.*'') n = Inr m"
  shows "\<exists>t1 t2. filter_tree fullmatch t E False regex False = (t, Inr (Some t1))
           \<and> filter_tree fullmatch t E False regex True = (t, Inr (Some t2))
           \<and> set (elements t1) \<inter> set (elements t2) = {}
           \<and> set (elements t1) \<union> set (elements t2) = set (elements t)"
proof -
  let ?p = "if regex then E else ''.*'' @ E @ ''.*''"
  have l: "filter_loop fullmatch ?p iv (elements t) [] =
             Inr ([] @ filter (\<lambda>n. (fullmatch ?p n = Inr True) \<noteq> iv) (elements t))" for iv
    using assms by (rule filter_loop_filter [of "elements t" fullmatch ?p])
  show ?thesis
    using l [of False] l [of True]
    by (cases regex) (auto simp: filter_tree_def Let_def elements_def)
qed

theorem filter_invert_partition_witness:
  "\<exists>t1 t2. filter_tree re_fullmatch logs ''log'' False False False = (logs, Inr (Some t1))
           \<and> filter_tree re_fullmatch logs ''log'' False False True = (logs, Inr (Some t2))
           \<and> set (elements t1) \<inter> set (elements t2) = {}
           \<and> set (elements t1) \<union> set (elements t2) = set (elements logs)"
proof -
  have "\<forall>n \<in> set (elements logs).
          \<exists>m. re_fullmatch (if False then ''log'' else ''.*'' @ ''log'' @ ''.*'') n = Inr m"
    by (simp add: re_fullmatch_def elements_def logs_def atom_of_def other_specials_def)
  with filter_invert_partition [of logs re_fullmatch False "''log''"] show ?thesis
    by simp
qed

text \<open>
  C6, as the code has it. On a tree with at least one element, an expression on which
  \<open>re.fullmatch\<close> raises makes \<open>filter\<close> with \<open>regex\<close> raise that error, in place or
  not, and the receiver is unchanged.
\<close>

theorem filter_invalid_regex_atomic:
  "elements t \<noteq> [] \<Longrightarrow> \<forall>n. fullmatch e n = Inl err \<Longrightarrow>
     filter_tree fullmatch t e inplace True invert = (t, Inl err)"
  by (cases "elements t") (simp_all add: filter_tree_def)

theorem filter_invalid_regex_atomic_witness:
  "filter_tree re_fullmatch logs ''*'' True True False = (logs, Inl PatternError)"
proof -
  have a: "elements logs \<noteq> []" by (simp add: elements_def logs_def)
  have b: "\<forall>n. re_fullmatch ''*'' n = Inl PatternError" by (simp add: re_fullmatch_def)
  from filter_invalid_regex_atomic [of logs re_fullmatch "''*''" PatternError True False] a b
  show ?thesis by simp
qed

text \<open>
  C6, the claim refuted. On a tree without elements the loop never calls
  \<open>re.fullmatch\<close>: the invalid expression \<open>*\<close> raises nothing, and in place it is
  appended to the applied filters.
\<close>

theorem filter_invalid_regex_empty_tree:
  "re_compile ''*'' = Inl PatternError
   \<and> filter_tree re_fullmatch no_files ''*'' True True False =
       (no_files\<lparr>applied_filters := [''*'']\<rparr>, Inr None)"
  by (simp add: filter_tree_def elements_def no_files_def)

section \<open>Construction\<close>

lemma split_length: "c \<in> set s \<Longrightarrow> 2 \<le> length (split c s)"
proof (induction s)
  case Nil
  then show ?case by simp
next
  case (Cons x s)
  have ne: "split c s \<noteq> []" by (cases s) (auto simp: Let_def)
  show ?case
  proof (cases "x = c")
    case True
    with ne show ?thesis by (cases "split c s") auto
  next
    case False
    with Cons have "2 \<le> length (split c s)" by simp
    with False show ?thesis by (simp add: Let_def)
  qed
qed

lemma parse_path_argument_sep:
  assumes "parse_path_argument getcwd p = Inr ap"
  shows "CHR ''/'' \<in> set ap"
proof -
  have "startswith q ''/'' \<Longrightarrow> CHR ''/'' \<in> set q" for q
    by (cases q) (auto simp: startswith_def)
  with assms show ?thesis
    by (cases getcwd) (auto simp: parse_path_argument_def Let_def split: if_splits)
qed

lemma seperate_path_returns: "CHR ''/'' \<in> set s \<Longrightarrow> \<exists>r. seperate_path s = Inr r"
  using split_length [of "CHR ''/''" s] by (auto simp: seperate_path_def Let_def)

text \<open>
  Once \<open>os.getcwd()\<close> has returned, \<open>Basetree.__init__\<close> does not raise: the root
  path always holds a separator.
\<close>

lemma Basetree_init_returns:
  assumes "parse_path_argument getcwd p = Inr ap"
  shows "\<exists>lp rd. Basetree_init k getcwd p nm =
     Inr \<lparr>kind = k, name = nm, abspath = ap, leadingpath = lp,
          rootdir = rd, elemlist = [], applied_filters = []\<rparr>"
  using seperate_path_returns [OF parse_path_argument_sep [OF assms]] assms
  by (auto simp: Basetree_init_def)

text \<open>When \<open>os.getcwd()\<close> raises, so do the constructors, with its error.\<close>

lemma constructors_raise_without_cwd:
  "Filetree_init (Inl e) fs p nm = Inl e" and "Dirtree_init (Inl e) fs p nm = Inl e"
  by (simp_all add: Filetree_init_def Dirtree_init_def Basetree_init_def
        parse_path_argument_def)

text \<open>
  C3. Built for the path "/" in the working directory \<open>/w\<close>, the Filetree has the
  root path \<open>/w/\<close>; the slice of \<open>_create_rellist\<close> then cuts one character too many
  from the files of the subdirectories, and the elements hold \<open>ub/f\<close> twice.
\<close>

theorem Filetree_duplicate_elements:
  "Filetree_init (Inr ''/w'') twins ''/'' [] = Inr twins_tree
   \<and> elements twins_tree = [''ub/f'', ''ub/f'']
   \<and> \<not> distinct (elements twins_tree)"
  by code_simp


text \<open>
  Where the claim of C3 holds: when the root path does not end with the separator and
  the directory is one a file system can hold, the elements of the tree built are the
  relative paths, sorted and without duplicates.
\<close>

lemma os_path_join_plain:
  assumes "n \<noteq> []" "CHR ''/'' \<notin> set n" "a \<noteq> []" "last a \<noteq> CHR ''/''"
  shows "os_path_join a n = a @ ''/'' @ n"
proof -
  from assms(1,2) have "hd n \<noteq> CHR ''/''" by (cases n) auto
  with assms show ?thesis by (simp add: os_path_join_def startswith_sep endswith_sep)
qed

lemma create_abslist_Nil: "create_abslist [] d = []"
  by (simp add: create_abslist_def)

lemma create_abslist_Cons:
  "r \<noteq> [] \<Longrightarrow> create_abslist ((r, ds, fs) # w) d =
     map (\<lambda>entry. r @ ''/'' @ entry) (if d then ds else fs) @ create_abslist w d"
  by (simp add: create_abslist_def)

lemma create_abslist_append:
  "create_abslist (a @ b) d = create_abslist a d @ create_abslist b d"
  by (simp add: create_abslist_def)

lemma names_by_kind:
  "(if d then map fst (filter (\<lambda>e. is_dir (snd e)) es)
    else map fst (filter (\<lambda>e. \<not> is_dir (snd e)) es))
   = map fst (filter (\<lambda>e. is_dir (snd e) = d) es)"
  by (cases d) simp_all

lemma walk_relative:
  "topdir \<noteq> [] \<Longrightarrow> last topdir \<noteq> CHR ''/'' \<Longrightarrow> wf_node node \<Longrightarrow>
     create_abslist (walk_node topdir node) d = map (\<lambda>r. topdir @ ''/'' @ r) (rel_node d node)"
  "topdir \<noteq> [] \<Longrightarrow> last topdir \<noteq> CHR ''/'' \<Longrightarrow> wf_entries es \<Longrightarrow>
     create_abslist (walk_entries topdir es) d = map (\<lambda>r. topdir @ ''/'' @ r) (rel_entries d es)"
proof (induction topdir node and topdir es rule: walk_node_walk_entries.induct)
  case (1 topdir r bs)
  then show ?case by (simp add: create_abslist_Nil)
next
  case (2 topdir r es)
  then show ?case
    by (simp add: create_abslist_Nil create_abslist_Cons names_by_kind)
next
  case (3 topdir)
  then show ?case by (simp add: create_abslist_Nil)
next
  case (4 topdir e es)
  from "4.prems" have n: "fst e \<noteq> []" "CHR ''/'' \<notin> set (fst e)" and wfn: "wf_node (snd e)"
    and wfe: "wf_entries es"
    by simp_all
  have j: "os_path_join topdir (fst e) = topdir @ ''/'' @ fst e"
    using n "4.prems"(1,2) by (rule os_path_join_plain)
  from n have l: "last (topdir @ ''/'' @ fst e) \<noteq> CHR ''/''"
    by (metis last_appendR last_in_set append_is_Nil_conv)
  have rest: "create_abslist (walk_entries topdir es) d
                = map (\<lambda>r. topdir @ ''/'' @ r) (rel_entries d es)"
    using "4.IH"(2) "4.prems"(1,2) wfe by simp
  show ?case
  proof (cases "is_dir (snd e)")
    case True
    have "create_abslist (walk_node (os_path_join topdir (fst e)) (snd e)) d
            = map (\<lambda>r. os_path_join topdir (fst e) @ ''/'' @ r) (rel_node d (snd e))"
      using "4.IH"(1) [OF True] j l wfn by simp
    with True rest j show ?thesis
      by (simp add: create_abslist_append)
  next
    case False
    with rest show ?thesis by (simp add: create_abslist_append create_abslist_Nil)
  qed
qed

lemma rel_entries_shape:
  "x \<in> set (rel_entries d es) \<Longrightarrow> \<exists>n r. n \<in> fst ` set es \<and> x = n @ ''/'' @ r"
proof (induction es)
  case Nil
  then show ?case by simp
next
  case (Cons e es)
  from Cons.prems consider
      (here) "x \<in> set (map (\<lambda>r. fst e @ ''/'' @ r) (rel_node d (snd e)))"
    | (later) "x \<in> set (rel_entries d es)"
    by (auto split: if_splits)
  then show ?case
  proof cases
    case here
    then obtain r where "x = fst e @ ''/'' @ r" by auto
    then have "fst e \<in> fst ` set (e # es) \<and> x = fst e @ ''/'' @ r" by simp
    then show ?thesis by blast
  next
    case later
    from Cons.IH [OF this] obtain n r where "n \<in> fst ` set es" "x = n @ ''/'' @ r" by blast
    then have "n \<in> fst ` set (e # es) \<and> x = n @ ''/'' @ r" by simp
    then show ?thesis by blast
  qed
qed

lemma sep_inject:
  "CHR ''/'' \<notin> set a \<Longrightarrow> CHR ''/'' \<notin> set b \<Longrightarrow> a @ ''/'' @ r = b @ ''/'' @ s \<Longrightarrow> a = b \<and> r = s"
proof (induction a arbitrary: b)
  case Nil
  then show ?case by (cases b) simp_all
next
  case (Cons x a)
  show ?case
  proof (cases b)
    case Nil
    with Cons.prems show ?thesis by simp
  next
    case (Cons y b')
    with Cons.prems have "x = y" "CHR ''/'' \<notin> set a" "CHR ''/'' \<notin> set b'"
      "a @ ''/'' @ r = b' @ ''/'' @ s" by simp_all
    with Cons.IH [of b'] Cons show ?thesis by simp
  qed
qed

lemma wf_entries_names:
  "wf_entries es \<Longrightarrow> n \<in> fst ` set es \<Longrightarrow> n \<noteq> [] \<and> CHR ''/'' \<notin> set n"
  by (induction es) auto

lemma rel_distinct:
  "wf_node node \<Longrightarrow> distinct (rel_node d node)"
  "wf_entries es \<Longrightarrow> distinct (map fst es) \<Longrightarrow> distinct (rel_entries d es)"
proof (induction d node and d es rule: rel_node_rel_entries.induct)
  case (1 d r bs)
  then show ?case by simp
next
  case (2 d r es)
  from "2.prems" have dn: "distinct (map fst es)" and wfe: "wf_entries es" by simp_all
  let ?names = "map fst (filter (\<lambda>e. is_dir (snd e) = d) es)"
  show ?case
  proof (cases r)
    case True
    have a: "distinct ?names"
      using dn by (rule distinct_map_filter)
    have b: "distinct (rel_entries d es)"
      using "2.IH" True wfe dn by simp
    have c: "set ?names \<inter> set (rel_entries d es) = {}"
    proof (rule ccontr)
      assume "\<not> ?thesis"
      then obtain x where x: "x \<in> set ?names" "x \<in> set (rel_entries d es)" by blast
      from x(1) have xn: "x \<in> fst ` set es" by auto
      from rel_entries_shape [OF x(2)] obtain n r where "x = n @ ''/'' @ r" by blast
      with wf_entries_names [OF wfe xn] show False by simp
    qed
    have "distinct (?names @ rel_entries d es)"
      unfolding distinct_append using a b c by blast
    with True show ?thesis by simp
  next
    case False
    then show ?thesis by simp
  qed
next
  case (3 d)
  then show ?case by simp
next
  case (4 d e es)
  from "4.prems" have n: "CHR ''/'' \<notin> set (fst e)" and wfn: "wf_node (snd e)"
    and wfe: "wf_entries es" and dn: "distinct (map fst es)" and new: "fst e \<notin> fst ` set es"
    by simp_all
  let ?chunk = "map (\<lambda>r. fst e @ ''/'' @ r) (rel_node d (snd e))"
  have rest: "distinct (rel_entries d es)"
    using "4.IH"(2) wfe dn by simp
  have apart: "set ?chunk \<inter> set (rel_entries d es) = {}"
  proof (rule ccontr)
    assume "\<not> ?thesis"
    then obtain x where x: "x \<in> set ?chunk" "x \<in> set (rel_entries d es)" by blast
    from x(1) obtain r where r: "x = fst e @ ''/'' @ r" by auto
    from rel_entries_shape [OF x(2)] obtain m s where
      m: "m \<in> fst ` set es" "x = m @ ''/'' @ s" by blast
    from wf_entries_names [OF wfe m(1)] have "CHR ''/'' \<notin> set m" by simp
    from r m(2) have "fst e @ ''/'' @ r = m @ ''/'' @ s" by simp
    from sep_inject [OF n \<open>CHR ''/'' \<notin> set m\<close> this] have "fst e = m" by simp
    with m(1) new show False by simp
  qed
  show ?case
  proof (cases "is_dir (snd e)")
    case True
    have "distinct (rel_node d (snd e))"
      using "4.IH"(1) True wfn by simp
    then have "distinct ?chunk"
      by (simp add: distinct_map inj_on_def)
    then have "distinct (?chunk @ rel_entries d es)"
      unfolding distinct_append using rest apart by blast
    with True show ?thesis by simp
  next
    case False
    with rest show ?thesis by simp
  qed
qed

lemma create_rellist_prefixed: "create_rellist (map (\<lambda>r. t @ ''/'' @ r) xs) t = xs"
  by (induction xs) (simp_all add: create_rellist_def)

lemma walk_elements:
  assumes "\<not> endswith ap ''/''" and "ap \<noteq> []" and "wf_node node"
  shows "create_rellist (create_abslist (walk_node ap node) d) ap = rel_node d node"
proof -
  from assms(1,2) have "last ap \<noteq> CHR ''/''" by (simp add: endswith_sep)
  from walk_relative(1) [OF assms(2) this assms(3)]
  have "create_abslist (walk_node ap node) d = map (\<lambda>r. ap @ ''/'' @ r) (rel_node d node)" .
  then show ?thesis
    by (simp only: create_rellist_prefixed)
qed


lemma elements_strictly_ascending:
  assumes "parse_path_argument getcwd p = Inr ap" and "\<not> endswith ap ''/''"
    and "\<forall>node. fs ap = Some node \<longrightarrow> wf_node node"
    and "Filetree_init getcwd fs p nm = Inr t \<or> Dirtree_init getcwd fs p nm = Inr t"
  shows "sorted_wrt (<) (elements t)"
proof -
  have ne: "ap \<noteq> []" using parse_path_argument_sep [OF assms(1)] by auto
  have d: "distinct (create_rellist (create_abslist (os_walk fs ap) dirsonly) ap)" for dirsonly
  proof (cases "fs ap")
    case None
    then show ?thesis by (simp add: os_walk_def create_abslist_def create_rellist_def)
  next
    case (Some node)
    with assms(3) have "wf_node node" by simp
    from walk_elements [OF assms(2) ne this] rel_distinct(1) [OF this] Some
    show ?thesis by (simp add: os_walk_def)
  qed
  have b: "\<exists>lp rd. Basetree_init k getcwd p nm =
     Inr \<lparr>kind = k, name = nm, abspath = ap, leadingpath = lp,
          rootdir = rd, elemlist = [], applied_filters = []\<rparr>" for k
    using assms(1) by (rule Basetree_init_returns)
  from assms(4)
  have "\<exists>dirsonly. elements t = sort (create_rellist (create_abslist (os_walk fs ap) dirsonly) ap)"
  proof
    assume f: "Filetree_init getcwd fs p nm = Inr t"
    from b [of Filetree] obtain lp rd where "Basetree_init Filetree getcwd p nm =
     Inr \<lparr>kind = Filetree, name = nm, abspath = ap, leadingpath = lp,
          rootdir = rd, elemlist = [], applied_filters = []\<rparr>" by blast
    with f have "elements t = sort (create_rellist (create_abslist (os_walk fs ap) False) ap)"
      by (auto simp: Filetree_init_def Let_def elements_def split: sum.splits)
    then show ?thesis by blast
  next
    assume f: "Dirtree_init getcwd fs p nm = Inr t"
    from b [of Dirtree] obtain lp rd where "Basetree_init Dirtree getcwd p nm =
     Inr \<lparr>kind = Dirtree, name = nm, abspath = ap, leadingpath = lp,
          rootdir = rd, elemlist = [], applied_filters = []\<rparr>" by blast
    with f have "elements t = sort (create_rellist (create_abslist (os_walk fs ap) True) ap)"
      by (auto simp: Dirtree_init_def Let_def elements_def split: sum.splits)
    then show ?thesis by blast
  qed
  with d show ?thesis
    by (auto simp: strict_sorted_iff)
qed

text \<open>The tree built for \<open>/A\<close> is an instance.\<close>

lemma elements_strictly_ascending_tree_A: "sorted_wrt (<) (elements tree_A)"
proof -
  have a: "parse_path_argument (Inr ''/'') ''/A'' = Inr ''/A''"
    by (simp add: parse_path_argument_def endswith_def startswith_def)
  have b: "\<not> endswith ''/A'' ''/''"
    by (simp add: endswith_def)
  have c: "\<forall>node. two_roots ''/A'' = Some node \<longrightarrow> wf_node node"
    by (simp add: two_roots_def)
  from elements_strictly_ascending [of "Inr ''/''" "''/A''" "''/A''" two_roots "[]" tree_A]
    a b c tree_A_built
  show ?thesis by simp
qed














end
